theory Spec2Isabelle
  imports Main
begin

section \<open>JavaScript numbers used by the simulator\<close>

text \<open>
  The numbers in the memory and in the registers are integers, so these JavaScript numbers
  are modelled as \<^typ>\<open>int\<close>. The remainder operator \<open>%\<close> of JavaScript truncates: its
  result has the sign of the dividend. A zero divisor gives \<open>NaN\<close> in JavaScript; the
  memory below is only used with a positive capacity (see \<open>ram_ok\<close>), so the divisor
  of \<open>js_rem\<close> is never zero there.
\<close>

definition js_rem :: "int \<Rightarrow> int \<Rightarrow> int" where
  "js_rem a b = sgn a * (\<bar>a\<bar> mod \<bar>b\<bar>)"

text \<open>
  \<open>value & 0xff\<close>: the bitwise conjunction with 255. On integers the conversion to 32 bits
  that JavaScript performs first does not change the low eight bits, so the conjunction on
  \<^typ>\<open>int\<close> (two's complement, unbounded) computes the same value.
\<close>

definition and_ff :: "int \<Rightarrow> int" where
  "and_ff v = and v 255"

section \<open>Memory (class RAM)\<close>

record RAM =
  size_ram :: int
  data :: "int list"

text \<open>
  The constructor \<open>new RAM(size)\<close>: \<open>new Array(size).fill(0)\<close>. A negative length makes
  \<open>new Array\<close> throw a RangeError, which is the value \<open>None\<close> here.
\<close>

definition RAM_new :: "int \<Rightarrow> RAM option" where
  "RAM_new n = (if n < 0 then None else Some \<lparr>size_ram = n, data = replicate (nat n) 0\<rparr>)"

text \<open>\<open>_wrap(addr)\<close>: \<open>((addr % this.size) + this.size) % this.size\<close>.\<close>

definition RAM_wrap :: "RAM \<Rightarrow> int \<Rightarrow> int" where
  "RAM_wrap r a = js_rem (js_rem a (size_ram r) + size_ram r) (size_ram r)"

text \<open>
  The class invariant that the constructor establishes for a positive capacity and that
  every method keeps: the backing array has exactly \<open>size\<close> cells. Under it the wrapped
  address is always a valid index, so no read or write below is out of range.
\<close>

definition ram_ok :: "RAM \<Rightarrow> bool" where
  "ram_ok r = (0 < size_ram r \<and> int (length (data r)) = size_ram r)"

definition RAM_read :: "RAM \<Rightarrow> int \<Rightarrow> int" where
  "RAM_read r a = data r ! nat (RAM_wrap r a)"

definition RAM_write :: "RAM \<Rightarrow> int \<Rightarrow> int \<Rightarrow> RAM" where
  "RAM_write r a v = r\<lparr>data := (data r)[nat (RAM_wrap r a) := and_ff v]\<rparr>"

text \<open>
  A call \<open>r.name(v)\<close> on a memory object with one integer argument: the error it throws,
  or the memory it leaves. The class body defines \<open>constructor\<close>, \<open>read\<close>, \<open>write\<close> and
  \<open>_wrap\<close>, and nothing else. \<open>read\<close> and \<open>_wrap\<close> leave the memory as it is; \<open>write\<close>
  with one argument stores \<open>undefined & 0xff\<close>, which is 0. The methods that every object
  inherits from \<open>Object.prototype\<close> and that run on one argument leave the memory as it
  is. Every other name is no function of the object (it is undefined, a field, the class
  constructor called without \<open>new\<close>, or an inherited method that needs a function as
  its second argument), and calling it throws a TypeError.
\<close>

datatype js_error = TypeError

definition Object_prototype_calls :: "string list" where
  "Object_prototype_calls = [''hasOwnProperty'', ''isPrototypeOf'', ''propertyIsEnumerable'',
     ''toString'', ''toLocaleString'', ''valueOf'', ''__lookupGetter__'', ''__lookupSetter__'']"

definition RAM_call :: "RAM \<Rightarrow> string \<Rightarrow> int \<Rightarrow> js_error + RAM" where
  "RAM_call r name v =
     (if name = ''read'' \<or> name = ''_wrap'' then Inr r
      else if name = ''write'' then Inr (RAM_write r v 0)
      else if name \<in> set Object_prototype_calls then Inr r
      else Inl TypeError)"

text \<open>
  The built-in \<open>Array.prototype.fill(value)\<close> of JavaScript, as the language defines it:
  from index 0 up to the length, each element is set to the value. It is not a method of
  class RAM.
\<close>

function array_fill_from :: "nat \<Rightarrow> int \<Rightarrow> int list \<Rightarrow> int list" where
  "array_fill_from k v xs =
     (if k < length xs then array_fill_from (Suc k) v (xs[k := v]) else xs)"
  by pat_completeness auto
termination
  by (relation "measure (\<lambda>(k, v, xs). length xs - k)") auto

declare array_fill_from.simps [simp del]

definition Array_fill :: "int list \<Rightarrow> int \<Rightarrow> int list" where
  "Array_fill xs v = array_fill_from 0 v xs"

text \<open>
  \<open>ram.data.fill(v)\<close>: the built-in fill applied to the backing array of a memory, from
  outside the class. The value is not masked. The driver does this with the value 0, in
  \<open>resetAll\<close> and before it loads an assembled program.
\<close>

definition data_fill :: "RAM \<Rightarrow> int \<Rightarrow> RAM" where
  "data_fill r v = r\<lparr>data := Array_fill (data r) v\<rparr>"

section \<open>Channel (class Bus)\<close>

text \<open>The three lines of the bus; \<open>None\<close> is JavaScript's \<open>null\<close>.\<close>

record bus_lines =
  addr_line :: "int option"
  data_line :: "int option"
  control_line :: "string option"

text \<open>
  The argument of \<open>send\<close> is an object in which each key may be missing. The spread
  \<open>{ ...this.lines, ...packet }\<close> replaces exactly the keys that the packet has.
\<close>

datatype 'a field = Omitted | Given 'a

record packet =
  p_addr :: "int option field"
  p_data :: "int option field"
  p_control :: "string option field"

definition merge_field :: "'a \<Rightarrow> 'a field \<Rightarrow> 'a" where
  "merge_field old f = (case f of Omitted \<Rightarrow> old | Given v \<Rightarrow> v)"

text \<open>
  \<open>notified\<close> records, in order, the value of \<open>this.lines\<close> that \<open>_notify\<close> handed to the
  registered listeners: one entry for each call of \<open>_notify\<close>.
\<close>

record Bus =
  lines :: bus_lines
  notified :: "bus_lines list"

definition Bus_new :: Bus where
  "Bus_new = \<lparr>lines = \<lparr>addr_line = None, data_line = None, control_line = None\<rparr>, notified = []\<rparr>"

definition Bus_notify :: "Bus \<Rightarrow> Bus" where
  "Bus_notify b = b\<lparr>notified := notified b @ [lines b]\<rparr>"

definition Bus_send :: "Bus \<Rightarrow> packet \<Rightarrow> Bus" where
  "Bus_send b p =
     Bus_notify (b\<lparr>lines :=
       \<lparr>addr_line = merge_field (addr_line (lines b)) (p_addr p),
        data_line = merge_field (data_line (lines b)) (p_data p),
        control_line = merge_field (control_line (lines b)) (p_control p)\<rparr>\<rparr>)"

definition Bus_clear :: "Bus \<Rightarrow> Bus" where
  "Bus_clear b =
     Bus_notify (b\<lparr>lines := \<lparr>addr_line = None, data_line = None, control_line = None\<rparr>\<rparr>)"

section \<open>Instruction set\<close>

definition NOP :: int where "NOP = 0"
definition LOAD :: int where "LOAD = 1"
definition STORE :: int where "STORE = 2"
definition ADD :: int where "ADD = 3"
definition SUB :: int where "SUB = 4"
definition JMP :: int where "JMP = 5"
definition JZ :: int where "JZ = 6"
definition OUT :: int where "OUT = 7"
definition HALT :: int where "HALT = 255"

definition OPCODES :: "(string \<times> int) list" where
  "OPCODES = [(''NOP'', NOP), (''LOAD'', LOAD), (''STORE'', STORE), (''ADD'', ADD),
     (''SUB'', SUB), (''JMP'', JMP), (''JZ'', JZ), (''OUT'', OUT), (''HALT'', HALT)]"

section \<open>Processing unit (class CPU)\<close>

text \<open>Decimal rendering of a number inside a template string.\<close>

definition digit_char :: "nat \<Rightarrow> char" where
  "digit_char d = ''0123456789'' ! d"

fun digits :: "nat \<Rightarrow> string" where
  "digits n = (if n < 10 then [digit_char n]
               else digits (n div 10) @ [digit_char (n mod 10)])"

declare digits.simps [simp del]

definition show_int :: "int \<Rightarrow> string" where
  "show_int i = (if i < 0 then CHR ''-'' # digits (nat (- i)) else digits (nat i))"

text \<open>
  The object returned by a step that executed, \<open>{ pc, acc, ir, flags: { zero } }\<close>, and
  the object handed to the step observer, which has the field \<open>action\<close> besides.
\<close>

record snapshot =
  pc :: int
  acc :: int
  ir :: int
  flags :: bool

record tick = snapshot +
  action :: string

datatype step_result = Halt_sentinel | Stepped snapshot

text \<open>
  The processing unit holds references to the memory and the bus it was created with;
  the state of all three is one record. \<open>onStep\<close> tells whether the hook \<open>this.onStep\<close>
  holds a callback (the constructor installs one); \<open>stepped\<close> records the arguments of
  its calls, in order. \<open>timers\<close> counts the calls \<open>setTimeout(() => this.bus.clear(), 300)\<close>
  that have not fired yet.
\<close>

record CPU =
  ram :: RAM
  bus :: Bus
  PC :: int
  ACC :: int
  IR :: int
  flags_zero :: bool
  halted :: bool
  onStep :: bool
  stepped :: "tick list"
  timers :: nat

definition CPU_new :: "RAM \<Rightarrow> Bus \<Rightarrow> CPU" where
  "CPU_new r b = \<lparr>ram = r, bus = b, PC = 0, ACC = 0, IR = 0, flags_zero = False,
     halted = False, onStep = True, stepped = [], timers = 0\<rparr>"

text \<open>The loop of \<open>loadProgram\<close>: \<open>this.ram.write(start + i, program[i])\<close> for each \<open>i\<close>.\<close>

fun write_program :: "RAM \<Rightarrow> int \<Rightarrow> int list \<Rightarrow> RAM" where
  "write_program r a [] = r"
| "write_program r a (b # bs) = write_program (RAM_write r a b) (a + 1) bs"

definition loadProgram :: "int list \<Rightarrow> int \<Rightarrow> CPU \<Rightarrow> CPU" where
  "loadProgram program start c = c\<lparr>ram := write_program (ram c) start program, PC := start\<rparr>"

definition reset :: "CPU \<Rightarrow> CPU" where
  "reset c = c\<lparr>PC := 0, ACC := 0, IR := 0, flags_zero := False, halted := False\<rparr>"

definition CPU_tick :: "string \<Rightarrow> CPU \<Rightarrow> CPU" where
  "CPU_tick act c =
     (if onStep c
      then c\<lparr>stepped := stepped c @
             [\<lparr>pc = PC c, acc = ACC c, ir = IR c, flags = flags_zero c, action = act\<rparr>]\<rparr>
      else c)"

text \<open>\<open>this.ram.read(this.PC++)\<close>: the operand byte, and the unit with PC advanced by one.\<close>

definition read_operand :: "CPU \<Rightarrow> int \<times> CPU" where
  "read_operand c = (RAM_read (ram c) (PC c), c\<lparr>PC := PC c + 1\<rparr>)"

definition read_packet :: "int \<Rightarrow> packet" where
  "read_packet a = \<lparr>p_addr = Given (Some a), p_data = Omitted, p_control = Given (Some ''READ'')\<rparr>"

definition exec_LOAD :: "CPU \<Rightarrow> CPU" where
  "exec_LOAD c =
     (let (a, c1) = read_operand c;
          c2 = c1\<lparr>bus := Bus_send (bus c1) (read_packet a)\<rparr>;
          val = RAM_read (ram c2) a;
          c3 = c2\<lparr>ACC := val\<rparr>;
          c4 = c3\<lparr>flags_zero := (ACC c3 = 0)\<rparr>
      in CPU_tick (''LOAD '' @ show_int a) c4)"

definition exec_STORE :: "CPU \<Rightarrow> CPU" where
  "exec_STORE c =
     (let (a, c1) = read_operand c;
          c2 = c1\<lparr>bus := Bus_send (bus c1)
                 \<lparr>p_addr = Given (Some a), p_data = Given (Some (ACC c1)),
                  p_control = Given (Some ''WRITE'')\<rparr>\<rparr>;
          c3 = c2\<lparr>ram := RAM_write (ram c2) a (ACC c2)\<rparr>
      in CPU_tick (''STORE '' @ show_int a) c3)"

definition exec_ADD :: "CPU \<Rightarrow> CPU" where
  "exec_ADD c =
     (let (a, c1) = read_operand c;
          c2 = c1\<lparr>bus := Bus_send (bus c1) (read_packet a)\<rparr>;
          val = RAM_read (ram c2) a;
          c3 = c2\<lparr>ACC := and_ff (ACC c2 + val)\<rparr>;
          c4 = c3\<lparr>flags_zero := (ACC c3 = 0)\<rparr>
      in CPU_tick (''ADD '' @ show_int a) c4)"

definition exec_SUB :: "CPU \<Rightarrow> CPU" where
  "exec_SUB c =
     (let (a, c1) = read_operand c;
          c2 = c1\<lparr>bus := Bus_send (bus c1) (read_packet a)\<rparr>;
          val = RAM_read (ram c2) a;
          c3 = c2\<lparr>ACC := and_ff (ACC c2 - val)\<rparr>;
          c4 = c3\<lparr>flags_zero := (ACC c3 = 0)\<rparr>
      in CPU_tick (''SUB '' @ show_int a) c4)"

definition exec_JMP :: "CPU \<Rightarrow> CPU" where
  "exec_JMP c =
     (let (a, c1) = read_operand c;
          c2 = c1\<lparr>PC := a\<rparr>
      in CPU_tick (''JMP '' @ show_int a) c2)"

definition exec_JZ :: "CPU \<Rightarrow> CPU" where
  "exec_JZ c =
     (let (a, c1) = read_operand c
      in if flags_zero c1
         then CPU_tick (''JZ (taken) '' @ show_int a) (c1\<lparr>PC := a\<rparr>)
         else CPU_tick (''JZ (not taken) '' @ show_int a) c1)"

definition exec_OUT :: "CPU \<Rightarrow> CPU" where
  "exec_OUT c = CPU_tick (''OUT '' @ show_int (ACC c)) c"

definition exec_HALT :: "CPU \<Rightarrow> CPU" where
  "exec_HALT c = CPU_tick ''HALT'' (c\<lparr>halted := True\<rparr>)"

text \<open>The \<open>switch (instr)\<close> of \<open>step\<close>, in the order of its cases.\<close>

definition execute :: "int \<Rightarrow> CPU \<Rightarrow> CPU" where
  "execute instr c =
     (if instr = NOP then CPU_tick ''NOP'' c
      else if instr = LOAD then exec_LOAD c
      else if instr = STORE then exec_STORE c
      else if instr = ADD then exec_ADD c
      else if instr = SUB then exec_SUB c
      else if instr = JMP then exec_JMP c
      else if instr = JZ then exec_JZ c
      else if instr = OUT then exec_OUT c
      else if instr = HALT then exec_HALT c
      else CPU_tick (''DATA '' @ show_int instr) c)"

definition fetch_packet :: "int \<Rightarrow> packet" where
  "fetch_packet a = \<lparr>p_addr = Given (Some a), p_data = Omitted, p_control = Given (Some ''FETCH'')\<rparr>"

definition fetch :: "CPU \<Rightarrow> CPU" where
  "fetch c =
     (let c1 = c\<lparr>bus := Bus_send (bus c) (fetch_packet (PC c))\<rparr>;
          instr = RAM_read (ram c1) (PC c1);
          c2 = c1\<lparr>IR := instr\<rparr>
      in c2\<lparr>PC := PC c2 + 1\<rparr>)"

definition CPU_snapshot :: "CPU \<Rightarrow> snapshot" where
  "CPU_snapshot c = \<lparr>pc = PC c, acc = ACC c, ir = IR c, flags = flags_zero c\<rparr>"

text \<open>
  \<open>step()\<close>: the value it returns and the state it leaves. The call of \<open>setTimeout\<close> at
  its end only registers a timer; the timer's callback runs later, as \<open>timer_fires\<close>.
\<close>

definition step :: "CPU \<Rightarrow> step_result \<times> CPU" where
  "step c =
     (if halted c then (Halt_sentinel, c)
      else
        let c1 = fetch c;
            c2 = execute (IR c1) c1;
            c3 = c2\<lparr>timers := timers c2 + 1\<rparr>
        in (Stepped (CPU_snapshot c3), c3))"

definition timer_fires :: "CPU \<Rightarrow> CPU" where
  "timer_fires c =
     (if timers c = 0 then c
      else c\<lparr>bus := Bus_clear (bus c), timers := timers c - 1\<rparr>)"

text \<open>\<open>n\<close> consecutive calls of \<open>step()\<close>: the values returned, in order, and the final state.\<close>

fun run :: "nat \<Rightarrow> CPU \<Rightarrow> step_result list \<times> CPU" where
  "run 0 c = ([], c)"
| "run (Suc n) c =
     (let (res, c1) = step c;
          (ress, c2) = run n c1
      in (res # ress, c2))"

definition steps :: "nat \<Rightarrow> CPU \<Rightarrow> CPU" where
  "steps n c = snd (run n c)"

section \<open>The sample program and its loading\<close>

definition sampleProgram :: "int list" where
  "sampleProgram = [LOAD, 10, ADD, 11, OUT, STORE, 12, HALT]"

definition sampleData :: "(int \<times> int) list" where
  "sampleData = [(10, 7), (11, 3)]"

text \<open>\<open>Object.keys(d).forEach((k) => ram.write(parseInt(k), d[k]))\<close>.\<close>

fun write_data :: "(int \<times> int) list \<Rightarrow> RAM \<Rightarrow> RAM" where
  "write_data [] r = r"
| "write_data ((k, v) # kvs) r = write_data kvs (RAM_write r k v)"

text \<open>
  The loading that the component performs when it is mounted, for any program and data:
  \<open>new RAM(64)\<close>, \<open>new Bus()\<close> and a processing unit on both; then \<open>cpu.reset()\<close>,
  \<open>cpu.loadProgram(program, 0)\<close> and the writes of the data. The component does it with
  \<open>sampleProgram\<close> and \<open>sampleData\<close>.
\<close>

definition load_machine :: "int list \<Rightarrow> (int \<times> int) list \<Rightarrow> CPU" where
  "load_machine program preload =
     (let c0 = CPU_new \<lparr>size_ram = 64, data = replicate 64 0\<rparr> Bus_new;
          c1 = loadProgram program 0 (reset c0)
      in c1\<lparr>ram := write_data preload (ram c1)\<rparr>)"

text \<open>
  \<open>resetAll()\<close> of the component: \<open>cpu.reset()\<close>, \<open>ram.data.fill(0)\<close>, the loading of the
  sample program and data, and \<open>bus.clear()\<close>. Its two calls on the display state (the
  log panel and the tick count) touch nothing of the machine.
\<close>

definition resetAll :: "CPU \<Rightarrow> CPU" where
  "resetAll c =
     (let c1 = reset c;
          c2 = c1\<lparr>ram := data_fill (ram c1) 0\<rparr>;
          c3 = loadProgram sampleProgram 0 c2;
          c4 = c3\<lparr>ram := write_data sampleData (ram c3)\<rparr>
      in c4\<lparr>bus := Bus_clear (bus c4)\<rparr>)"

section \<open>Assembler (quickAssemble)\<close>

text \<open>
  A number produced by \<open>parseInt\<close>: an integer, or \<open>NaN\<close> when the text does not start
  with a digit (after an optional sign) or is \<open>undefined\<close>.
\<close>

datatype jsnum = Num int | NaN

text \<open>The white space of \<open>trim\<close> and of the pattern \<open>\s\<close>, among the byte characters.\<close>

definition is_space :: "char \<Rightarrow> bool" where
  "is_space c = (c \<in> set [CHR 0x09, CHR 0x0A, CHR 0x0B, CHR 0x0C, CHR 0x0D, CHR '' ''])"

definition trim :: "string \<Rightarrow> string" where
  "trim s = rev (dropWhile is_space (rev (dropWhile is_space s)))"

text \<open>
  \<open>s.split(/\s+/)\<close>: the pieces between maximal runs of white space. \<open>cur\<close> holds the
  piece being read, reversed; \<open>sp\<close> tells that the last character read was white space.
  A run at the start or at the end of the text leaves an empty piece there, and the empty
  text gives one empty piece, as in JavaScript.
\<close>

fun split_ws :: "bool \<Rightarrow> string \<Rightarrow> string \<Rightarrow> string list" where
  "split_ws sp cur [] = [rev cur]"
| "split_ws sp cur (c # cs) =
     (if is_space c
      then (if sp then split_ws True cur cs else rev cur # split_ws True [] cs)
      else split_ws False (c # cur) cs)"

definition split_space :: "string \<Rightarrow> string list" where
  "split_space s = split_ws False [] s"

definition upper_char :: "char \<Rightarrow> char" where
  "upper_char c =
     (case map_of (zip ''abcdefghijklmnopqrstuvwxyz'' ''ABCDEFGHIJKLMNOPQRSTUVWXYZ'') c of
        Some u \<Rightarrow> u
      | None \<Rightarrow> c)"

definition toUpperCase :: "string \<Rightarrow> string" where
  "toUpperCase s = map upper_char s"

text \<open>The value of a digit in the given radix, if the character is one.\<close>

definition digit_value :: "nat \<Rightarrow> char \<Rightarrow> nat option" where
  "digit_value radix c =
     (case map_of (zip ''0123456789abcdef'' [0 ..< 16] @ zip ''ABCDEF'' [10 ..< 16]) c of
        None \<Rightarrow> None
      | Some d \<Rightarrow> if d < radix then Some d else None)"

definition starts_with :: "string \<Rightarrow> string \<Rightarrow> bool" where
  "starts_with s p = (take (length p) s = p)"

text \<open>
  \<open>parseInt(s)\<close> with no radix: leading white space is skipped, a sign is read, a prefix
  \<open>0x\<close> or \<open>0X\<close> selects radix 16, and the longest run of digits is the value; text after
  it is ignored. No digit at all gives \<open>NaN\<close>.
\<close>

definition parseInt :: "string \<Rightarrow> jsnum" where
  "parseInt s =
     (let s1 = dropWhile is_space s;
          neg = starts_with s1 ''-'';
          s2 = (if starts_with s1 ''-'' \<or> starts_with s1 ''+'' then drop 1 s1 else s1);
          hex = (starts_with s2 ''0x'' \<or> starts_with s2 ''0X'');
          radix = (if hex then 16 else 10);
          s3 = (if hex then drop 2 s2 else s2);
          ds = takeWhile (\<lambda>c. digit_value radix c \<noteq> None) s3;
          n = foldl (\<lambda>k c. k * radix + (case digit_value radix c of Some d \<Rightarrow> d | None \<Rightarrow> 0))
                0 ds
      in if ds = [] then NaN else Num (if neg then - int n else int n))"

text \<open>\<open>parseInt(parts[i])\<close>, where \<open>parts[i]\<close> is \<open>undefined\<close> beyond the end of the array.\<close>

definition parseInt_part :: "string list \<Rightarrow> nat \<Rightarrow> jsnum" where
  "parseInt_part parts i = (if i < length parts then parseInt (parts ! i) else NaN)"

text \<open>
  \<open>data[addr] = val\<close> on the object \<open>data\<close>: the entry of an existing key is replaced, a
  new key is added.
\<close>

fun assign :: "'k \<Rightarrow> 'v \<Rightarrow> ('k \<times> 'v) list \<Rightarrow> ('k \<times> 'v) list" where
  "assign k v [] = [(k, v)]"
| "assign k v ((k', v') # kvs) =
     (if k = k' then (k, v) # kvs else (k', v') # assign k v kvs)"

text \<open>The body of the \<open>forEach\<close> in \<open>quickAssemble\<close>, on the pair of \<open>out\<close> and \<open>data\<close>.\<close>

definition assemble_line :: "string \<Rightarrow> jsnum list \<times> (jsnum \<times> jsnum) list
    \<Rightarrow> jsnum list \<times> (jsnum \<times> jsnum) list" where
  "assemble_line ln st =
     (let (out, dat) = st;
          parts = split_space (trim ln)
      in case parts of
           [] \<Rightarrow> (out, dat)
         | p0 # rest \<Rightarrow>
             if p0 = [] then (out, dat)
             else
               let op = toUpperCase p0
               in if op = ''DATA''
                  then (out, assign (parseInt_part parts 1) (parseInt_part parts 2) dat)
                  else (case map_of OPCODES op of
                          Some code \<Rightarrow>
                            (out @ [Num code] @
                               (if 1 < length parts then [parseInt (parts ! 1)] else []), dat)
                        | None \<Rightarrow> (out, dat)))"

definition quickAssemble :: "string list \<Rightarrow> jsnum list \<times> (jsnum \<times> jsnum) list" where
  "quickAssemble assemblies = fold assemble_line assemblies ([], [])"

section \<open>Notions used to state the properties\<close>

text \<open>The memory holds the given bytes in consecutive cells from address \<open>a\<close> on.\<close>

fun program_at :: "RAM \<Rightarrow> int \<Rightarrow> int list \<Rightarrow> bool" where
  "program_at r a [] = True"
| "program_at r a (b # bs) = (RAM_read r a = b \<and> program_at r (a + 1) bs)"

text \<open>
  The architectural state: the memory and the registers, without the bus, the observer
  hook, the record of its calls and the pending timers.
\<close>

definition arch :: "CPU \<Rightarrow> RAM \<times> int \<times> int \<times> int \<times> bool \<times> bool" where
  "arch c = (ram c, PC c, ACC c, IR c, flags_zero c, halted c)"

definition jumpProgram :: "int list" where
  "jumpProgram = [LOAD, 5, JZ, 6, HALT, NOP, NOP, JMP, 2]"

text \<open>
  Between the states \<open>c\<close> and \<open>c'\<close> the step observer was called exactly once, with
  the registers of \<open>c'\<close>.
\<close>

definition ticked_once :: "CPU \<Rightarrow> CPU \<Rightarrow> bool" where
  "ticked_once c c' = (\<exists>act. stepped c' = stepped c @
     [\<lparr>pc = PC c', acc = ACC c', ir = IR c', flags = flags_zero c', action = act\<rparr>])"

text \<open>
  A second unit with the registers and memory of the loaded sample machine, but with
  another bus state, no step observer and two pending timers.
\<close>

definition other_machine :: CPU where
  "other_machine = (load_machine sampleProgram sampleData)
     \<lparr>bus := Bus_send Bus_new \<lparr>p_addr = Given (Some 3), p_data = Given (Some 9),
          p_control = Given (Some ''WRITE'')\<rparr>, onStep := False, timers := 2\<rparr>"

text \<open>
  A unit whose program, \<open>LOAD 10\<close>, starts in the last cell of a memory of 64 cells, so
  that its operand lies at address 64; cell 10 holds 42.
\<close>

definition end_machine :: CPU where
  "end_machine = loadProgram [LOAD, 10] 63
     (CPU_new (RAM_write \<lparr>size_ram = 64, data = replicate 64 0\<rparr> 10 42) Bus_new)"

text \<open>A unit whose program jumps to address 200, beyond the 64 cells of its memory.\<close>

definition far_jump_machine :: CPU where
  "far_jump_machine = load_machine [JMP, 200] []"

text \<open>The unit after the one step of the program that is just HALT: a halted unit.\<close>

definition halt_machine :: CPU where
  "halt_machine = snd (step (load_machine [HALT] []))"

text \<open>A unit loaded with a program that stores the accumulator, 7 after its LOAD.\<close>

definition store_machine :: CPU where
  "store_machine = load_machine [LOAD, 10, STORE, 12, HALT] [(10, 7)]"

section \<open>Facts about the memory\<close>

lemma and_ff_mod: "and_ff v = v mod 256"
proof -
  have m: "(255::int) = mask 8"
    by (simp add: mask_eq_exp_minus_1)
  have "and v 255 = take_bit 8 v"
    unfolding m by (simp only: take_bit_eq_mask)
  then show ?thesis
    by (simp add: and_ff_def take_bit_eq_mod)
qed

lemma js_rem_nonneg: "0 \<le> a \<Longrightarrow> 0 < n \<Longrightarrow> js_rem a n = a mod n"
  by (cases "a = 0") (simp_all add: js_rem_def)

lemma js_rem_lower: "0 < n \<Longrightarrow> - n < js_rem a n"
proof -
  assume n: "0 < n"
  have "\<bar>a\<bar> mod \<bar>n\<bar> < n" using n by simp
  moreover have "0 \<le> \<bar>a\<bar> mod \<bar>n\<bar>" using n by simp
  ultimately show ?thesis
    by (cases "a < 0"; cases "a = 0") (simp_all add: js_rem_def)
qed

lemma js_rem_cong: "0 < n \<Longrightarrow> js_rem a n mod n = a mod n"
proof (cases "a < 0")
  case False
  assume "0 < n"
  with False show ?thesis by (simp add: js_rem_nonneg)
next
  case True
  assume n: "0 < n"
  from True have "js_rem a n = - ((- a) mod n)"
    using n by (simp add: js_rem_def)
  then have "js_rem a n mod n = (- ((- a) mod n)) mod n" by simp
  also have "\<dots> = (- (- a)) mod n" by (rule mod_minus_eq)
  finally show ?thesis by simp
qed

lemma RAM_wrap_mod: "0 < size_ram r \<Longrightarrow> RAM_wrap r a = a mod size_ram r"
proof -
  let ?n = "size_ram r"
  assume n: "0 < ?n"
  have "0 \<le> js_rem a ?n + ?n" using js_rem_lower [OF n, of a] by simp
  then have "RAM_wrap r a = (js_rem a ?n + ?n) mod ?n"
    using n by (simp add: RAM_wrap_def js_rem_nonneg)
  also have "\<dots> = js_rem a ?n mod ?n" by simp
  also have "\<dots> = a mod ?n" using n by (rule js_rem_cong)
  finally show ?thesis .
qed

lemma RAM_wrap_index: "ram_ok r \<Longrightarrow> nat (RAM_wrap r a) < length (data r)"
  by (simp add: ram_ok_def RAM_wrap_mod nat_less_iff)

lemma RAM_wrap_write: "RAM_wrap (RAM_write r a v) b = RAM_wrap r b"
  by (simp add: RAM_wrap_def RAM_write_def)

lemma ram_ok_write: "ram_ok r \<Longrightarrow> ram_ok (RAM_write r a v)"
  by (simp add: ram_ok_def RAM_write_def)

lemma ram_ok_new: "0 < n \<Longrightarrow> \<exists>r. RAM_new n = Some r \<and> ram_ok r"
  by (simp add: RAM_new_def ram_ok_def)

lemma RAM_new_64: "RAM_new 64 = Some \<lparr>size_ram = 64, data = replicate 64 0\<rparr>"
  by (simp add: RAM_new_def)

lemma array_fill_from_eq:
  "k \<le> length xs \<Longrightarrow> array_fill_from k v xs = take k xs @ replicate (length xs - k) v"
proof (induction k v xs rule: array_fill_from.induct)
  case (1 k v xs)
  show ?case
  proof (cases "k < length xs")
    case True
    then have "array_fill_from k v xs = array_fill_from (Suc k) v (xs[k := v])"
      by (simp add: array_fill_from.simps [of k])
    also have "\<dots> = take (Suc k) (xs[k := v]) @ replicate (length xs - Suc k) v"
      using "1.IH" [OF True] True by simp
    also have "take (Suc k) (xs[k := v]) = take k xs @ [v]"
      using True by (simp add: take_Suc_conv_app_nth)
    also have "(take k xs @ [v]) @ replicate (length xs - Suc k) v
        = take k xs @ replicate (Suc (length xs - Suc k)) v"
      by simp
    also have "Suc (length xs - Suc k) = length xs - k" using True by simp
    finally show ?thesis .
  next
    case False
    then have "array_fill_from k v xs = xs"
      by (simp add: array_fill_from.simps [of k])
    moreover from False "1.prems" have "k = length xs" by simp
    ultimately show ?thesis by simp
  qed
qed

lemma Array_fill_replicate: "Array_fill xs v = replicate (length xs) v"
  by (simp add: Array_fill_def array_fill_from_eq)

lemma RAM_wrap_small: "ram_ok r \<Longrightarrow> 0 \<le> a \<Longrightarrow> a < size_ram r \<Longrightarrow> RAM_wrap r a = a"
  by (simp add: ram_ok_def RAM_wrap_mod)

lemma RAM_read_write_same: "ram_ok r \<Longrightarrow> RAM_read (RAM_write r a v) a = and_ff v"
  using RAM_wrap_index [of r a]
  by (simp add: RAM_read_def RAM_wrap_write) (simp add: RAM_write_def)

lemma RAM_read_write_other:
  "ram_ok r \<Longrightarrow> RAM_wrap r a \<noteq> RAM_wrap r b \<Longrightarrow> RAM_read (RAM_write r a v) b = RAM_read r b"
proof -
  assume ok: "ram_ok r" and ne: "RAM_wrap r a \<noteq> RAM_wrap r b"
  from ok have n: "0 < size_ram r" by (simp add: ram_ok_def)
  have "0 \<le> RAM_wrap r a" "0 \<le> RAM_wrap r b" using n by (simp_all add: RAM_wrap_mod)
  with ne have "nat (RAM_wrap r a) \<noteq> nat (RAM_wrap r b)" by simp
  then show ?thesis
    by (simp add: RAM_read_def RAM_wrap_write) (simp add: RAM_write_def)
qed

section \<open>Facts about a step\<close>

lemmas opcode_defs =
  NOP_def LOAD_def STORE_def ADD_def SUB_def JMP_def JZ_def OUT_def HALT_def

lemmas step_unfold = step_def fetch_def execute_def read_operand_def CPU_tick_def
  CPU_snapshot_def Let_def opcode_defs

lemma step_halted: "halted c \<Longrightarrow> step c = (Halt_sentinel, c)"
  by (simp add: step_def)

lemma step_LOAD:
  assumes "\<not> halted c" and "RAM_read (ram c) (PC c) = LOAD"
  shows "PC (snd (step c)) = PC c + 2"
    and "ACC (snd (step c)) = RAM_read (ram c) (RAM_read (ram c) (PC c + 1))"
    and "flags_zero (snd (step c)) = (RAM_read (ram c) (RAM_read (ram c) (PC c + 1)) = 0)"
    and "IR (snd (step c)) = LOAD"
    and "ram (snd (step c)) = ram c"
    and "\<not> halted (snd (step c))"
  using assms by (simp_all add: step_unfold exec_LOAD_def)

lemma step_ADD:
  assumes "\<not> halted c" and "RAM_read (ram c) (PC c) = ADD"
  shows "PC (snd (step c)) = PC c + 2"
    and "ACC (snd (step c)) = and_ff (ACC c + RAM_read (ram c) (RAM_read (ram c) (PC c + 1)))"
    and "flags_zero (snd (step c)) = (and_ff (ACC c + RAM_read (ram c) (RAM_read (ram c) (PC c + 1))) = 0)"
    and "IR (snd (step c)) = ADD"
    and "ram (snd (step c)) = ram c"
    and "\<not> halted (snd (step c))"
  using assms by (simp_all add: step_unfold exec_ADD_def)

lemma step_SUB:
  assumes "\<not> halted c" and "RAM_read (ram c) (PC c) = SUB"
  shows "PC (snd (step c)) = PC c + 2"
    and "ACC (snd (step c)) = and_ff (ACC c - RAM_read (ram c) (RAM_read (ram c) (PC c + 1)))"
    and "flags_zero (snd (step c)) = (and_ff (ACC c - RAM_read (ram c) (RAM_read (ram c) (PC c + 1))) = 0)"
    and "IR (snd (step c)) = SUB"
    and "ram (snd (step c)) = ram c"
    and "\<not> halted (snd (step c))"
  using assms by (simp_all add: step_unfold exec_SUB_def)

lemma step_STORE:
  assumes "\<not> halted c" and "RAM_read (ram c) (PC c) = STORE"
  shows "PC (snd (step c)) = PC c + 2"
    and "ACC (snd (step c)) = ACC c"
    and "flags_zero (snd (step c)) = flags_zero c"
    and "IR (snd (step c)) = STORE"
    and "ram (snd (step c)) = RAM_write (ram c) (RAM_read (ram c) (PC c + 1)) (ACC c)"
    and "\<not> halted (snd (step c))"
  using assms by (simp_all add: step_unfold exec_STORE_def)

lemma step_JMP:
  assumes "\<not> halted c" and "RAM_read (ram c) (PC c) = JMP"
  shows "PC (snd (step c)) = RAM_read (ram c) (PC c + 1)"
    and "ACC (snd (step c)) = ACC c"
    and "flags_zero (snd (step c)) = flags_zero c"
    and "IR (snd (step c)) = JMP"
    and "ram (snd (step c)) = ram c"
    and "\<not> halted (snd (step c))"
  using assms by (simp_all add: step_unfold exec_JMP_def)

lemma step_JZ:
  assumes "\<not> halted c" and "RAM_read (ram c) (PC c) = JZ"
  shows "PC (snd (step c)) = (if flags_zero c then RAM_read (ram c) (PC c + 1) else PC c + 2)"
    and "ACC (snd (step c)) = ACC c"
    and "flags_zero (snd (step c)) = flags_zero c"
    and "IR (snd (step c)) = JZ"
    and "ram (snd (step c)) = ram c"
    and "\<not> halted (snd (step c))"
  using assms by (simp_all add: step_unfold exec_JZ_def)

lemma step_OUT:
  assumes "\<not> halted c" and "RAM_read (ram c) (PC c) = OUT"
  shows "PC (snd (step c)) = PC c + 1"
    and "ACC (snd (step c)) = ACC c"
    and "flags_zero (snd (step c)) = flags_zero c"
    and "IR (snd (step c)) = OUT"
    and "ram (snd (step c)) = ram c"
    and "\<not> halted (snd (step c))"
  using assms by (simp_all add: step_unfold exec_OUT_def)

lemma step_HALT:
  assumes "\<not> halted c" and "RAM_read (ram c) (PC c) = HALT"
  shows "PC (snd (step c)) = PC c + 1"
    and "ACC (snd (step c)) = ACC c"
    and "flags_zero (snd (step c)) = flags_zero c"
    and "IR (snd (step c)) = HALT"
    and "ram (snd (step c)) = ram c"
    and "halted (snd (step c))"
  using assms by (simp_all add: step_unfold exec_HALT_def)

lemma step_other:
  assumes "\<not> halted c" and "RAM_read (ram c) (PC c) \<notin> {LOAD, STORE, ADD, SUB, JMP, JZ, HALT}"
  shows "PC (snd (step c)) = PC c + 1"
    and "ACC (snd (step c)) = ACC c"
    and "flags_zero (snd (step c)) = flags_zero c"
    and "IR (snd (step c)) = RAM_read (ram c) (PC c)"
    and "ram (snd (step c)) = ram c"
    and "\<not> halted (snd (step c))"
  using assms by (simp_all add: step_unfold exec_OUT_def)

lemma steps_0: "steps 0 c = c"
  by (simp add: steps_def)

lemma steps_Suc: "steps (Suc n) c = steps n (snd (step c))"
  by (simp add: steps_def split: prod.splits)

section \<open>Facts about the registers after a step\<close>

lemma fetch_regs:
  "bus (fetch c) = Bus_send (bus c) (fetch_packet (PC c))"
  "ram (fetch c) = ram c" "PC (fetch c) = PC c + 1" "ACC (fetch c) = ACC c"
  "IR (fetch c) = RAM_read (ram c) (PC c)" "flags_zero (fetch c) = flags_zero c"
  by (simp_all add: fetch_def Let_def)

lemma tick_regs:
  "PC (CPU_tick act c) = PC c" "IR (CPU_tick act c) = IR c"
  by (simp_all add: CPU_tick_def)

lemma exec_PC:
  "PC (exec_LOAD c) = PC c + 1" "PC (exec_STORE c) = PC c + 1"
  "PC (exec_ADD c) = PC c + 1" "PC (exec_SUB c) = PC c + 1"
  "PC (exec_JMP c) = RAM_read (ram c) (PC c)"
  "PC (exec_JZ c) = (if flags_zero c then RAM_read (ram c) (PC c) else PC c + 1)"
  "PC (exec_OUT c) = PC c" "PC (exec_HALT c) = PC c"
  by (simp_all add: exec_LOAD_def exec_STORE_def exec_ADD_def exec_SUB_def exec_JMP_def
      exec_JZ_def exec_OUT_def exec_HALT_def read_operand_def Let_def tick_regs)

lemma exec_IR:
  "IR (exec_LOAD c) = IR c" "IR (exec_STORE c) = IR c"
  "IR (exec_ADD c) = IR c" "IR (exec_SUB c) = IR c"
  "IR (exec_JMP c) = IR c" "IR (exec_JZ c) = IR c"
  "IR (exec_OUT c) = IR c" "IR (exec_HALT c) = IR c"
  by (simp_all add: exec_LOAD_def exec_STORE_def exec_ADD_def exec_SUB_def exec_JMP_def
      exec_JZ_def exec_OUT_def exec_HALT_def read_operand_def Let_def tick_regs)

lemma execute_IR: "IR (execute i c) = IR c"
  by (simp add: execute_def exec_IR tick_regs)

lemma execute_PC:
  "PC (execute i c) =
     (if i = LOAD \<or> i = STORE \<or> i = ADD \<or> i = SUB then PC c + 1
      else if i = JMP then RAM_read (ram c) (PC c)
      else if i = JZ then (if flags_zero c then RAM_read (ram c) (PC c) else PC c + 1)
      else PC c)"
  by (simp add: execute_def exec_PC tick_regs opcode_defs)

lemma step_PC:
  "\<not> halted c \<Longrightarrow> PC (snd (step c)) = PC (execute (RAM_read (ram c) (PC c)) (fetch c))"
  by (simp add: step_def Let_def fetch_regs)

lemma step_IR:
  "\<not> halted c \<Longrightarrow> IR (snd (step c)) = RAM_read (ram c) (PC c)"
  by (simp add: step_def Let_def fetch_regs execute_IR)

lemma tick_ram: "ram (CPU_tick act c) = ram c"
  by (simp add: CPU_tick_def)

lemma execute_ram:
  "ram (execute i c) =
     (if i = STORE then RAM_write (ram c) (RAM_read (ram c) (PC c)) (ACC c) else ram c)"
  by (simp add: execute_def exec_LOAD_def exec_STORE_def exec_ADD_def exec_SUB_def
      exec_JMP_def exec_JZ_def exec_OUT_def exec_HALT_def read_operand_def Let_def tick_ram
      opcode_defs)

lemma ram_ok_step: "ram_ok (ram c) \<Longrightarrow> ram_ok (ram (snd (step c)))"
  by (simp add: step_def Let_def execute_ram fetch_regs ram_ok_write)

section \<open>Facts about the bus\<close>

lemma bus_tick: "bus (CPU_tick act c) = bus c"
  by (simp add: CPU_tick_def)

lemma exec_bus:
  "bus (exec_LOAD c) = Bus_send (bus c) (read_packet (RAM_read (ram c) (PC c)))"
  "bus (exec_ADD c) = Bus_send (bus c) (read_packet (RAM_read (ram c) (PC c)))"
  "bus (exec_SUB c) = Bus_send (bus c) (read_packet (RAM_read (ram c) (PC c)))"
  "bus (exec_STORE c) = Bus_send (bus c)
     \<lparr>p_addr = Given (Some (RAM_read (ram c) (PC c))), p_data = Given (Some (ACC c)),
      p_control = Given (Some ''WRITE'')\<rparr>"
  "bus (exec_JMP c) = bus c" "bus (exec_JZ c) = bus c"
  "bus (exec_OUT c) = bus c" "bus (exec_HALT c) = bus c"
  by (simp_all add: exec_LOAD_def exec_STORE_def exec_ADD_def exec_SUB_def exec_JMP_def
      exec_JZ_def exec_OUT_def exec_HALT_def read_operand_def Let_def bus_tick)

lemma execute_bus:
  "bus (execute i c) =
     (if i = LOAD \<or> i = ADD \<or> i = SUB
      then Bus_send (bus c) (read_packet (RAM_read (ram c) (PC c)))
      else if i = STORE
      then Bus_send (bus c)
             \<lparr>p_addr = Given (Some (RAM_read (ram c) (PC c))), p_data = Given (Some (ACC c)),
              p_control = Given (Some ''WRITE'')\<rparr>
      else bus c)"
  by (simp add: execute_def exec_bus bus_tick opcode_defs)

lemma step_bus:
  "\<not> halted c \<Longrightarrow> bus (snd (step c)) = bus (execute (RAM_read (ram c) (PC c)) (fetch c))"
  by (simp add: step_def Let_def fetch_regs)

section \<open>Facts about the step observer\<close>

lemma ticked_once_tick:
  "onStep c' \<Longrightarrow> stepped c' = stepped c \<Longrightarrow> ticked_once c (CPU_tick act c')"
  unfolding ticked_once_def by (rule exI [of _ act]) (simp add: CPU_tick_def)

lemma ticked_once_exec:
  assumes "onStep c"
  shows "ticked_once c (exec_LOAD c)" and "ticked_once c (exec_STORE c)"
    and "ticked_once c (exec_ADD c)" and "ticked_once c (exec_SUB c)"
    and "ticked_once c (exec_JMP c)" and "ticked_once c (exec_JZ c)"
    and "ticked_once c (exec_OUT c)" and "ticked_once c (exec_HALT c)"
  using assms
  by (simp_all add: exec_LOAD_def exec_STORE_def exec_ADD_def exec_SUB_def exec_JMP_def
      exec_JZ_def exec_OUT_def exec_HALT_def read_operand_def Let_def ticked_once_tick)

lemma ticked_once_execute: "onStep c \<Longrightarrow> ticked_once c (execute i c)"
  by (simp add: execute_def ticked_once_exec ticked_once_tick)

lemma fetch_observer: "onStep (fetch c) = onStep c" "stepped (fetch c) = stepped c"
  by (simp_all add: fetch_def Let_def)

section \<open>The architectural state does not depend on the rest\<close>

lemma arch_tick: "arch (CPU_tick act c) = arch c"
  by (simp add: arch_def CPU_tick_def)

lemma arch_fetch:
  "arch c1 = arch c2 \<Longrightarrow> arch (fetch c1) = arch (fetch c2)"
  by (simp add: arch_def fetch_def Let_def)

lemma arch_exec:
  assumes "arch c1 = arch c2"
  shows "arch (exec_LOAD c1) = arch (exec_LOAD c2)"
    and "arch (exec_STORE c1) = arch (exec_STORE c2)"
    and "arch (exec_ADD c1) = arch (exec_ADD c2)"
    and "arch (exec_SUB c1) = arch (exec_SUB c2)"
    and "arch (exec_JMP c1) = arch (exec_JMP c2)"
    and "arch (exec_JZ c1) = arch (exec_JZ c2)"
    and "arch (exec_OUT c1) = arch (exec_OUT c2)"
    and "arch (exec_HALT c1) = arch (exec_HALT c2)"
proof -
  from assms have eq: "ram c1 = ram c2" "PC c1 = PC c2" "ACC c1 = ACC c2" "IR c1 = IR c2"
    "flags_zero c1 = flags_zero c2" "halted c1 = halted c2"
    by (simp_all add: arch_def)
  show "arch (exec_LOAD c1) = arch (exec_LOAD c2)"
    by (simp add: exec_LOAD_def read_operand_def Let_def arch_tick) (simp add: arch_def eq)
  show "arch (exec_STORE c1) = arch (exec_STORE c2)"
    by (simp add: exec_STORE_def read_operand_def Let_def arch_tick) (simp add: arch_def eq)
  show "arch (exec_ADD c1) = arch (exec_ADD c2)"
    by (simp add: exec_ADD_def read_operand_def Let_def arch_tick) (simp add: arch_def eq)
  show "arch (exec_SUB c1) = arch (exec_SUB c2)"
    by (simp add: exec_SUB_def read_operand_def Let_def arch_tick) (simp add: arch_def eq)
  show "arch (exec_JMP c1) = arch (exec_JMP c2)"
    by (simp add: exec_JMP_def read_operand_def Let_def arch_tick) (simp add: arch_def eq)
  show "arch (exec_JZ c1) = arch (exec_JZ c2)"
    by (simp add: exec_JZ_def read_operand_def Let_def arch_tick eq) (simp add: arch_def eq)
  show "arch (exec_OUT c1) = arch (exec_OUT c2)"
    by (simp add: exec_OUT_def arch_tick) (simp add: arch_def eq)
  show "arch (exec_HALT c1) = arch (exec_HALT c2)"
    by (simp add: exec_HALT_def arch_tick) (simp add: arch_def eq)
qed

lemma arch_execute:
  assumes "arch c1 = arch c2"
  shows "arch (execute i c1) = arch (execute i c2)"
  using arch_exec [OF assms] assms by (simp add: execute_def arch_tick)

lemma arch_step:
  assumes "arch c1 = arch c2"
  shows "fst (step c1) = fst (step c2) \<and> arch (snd (step c1)) = arch (snd (step c2))"
proof (cases "halted c1")
  case True
  with assms have "halted c2" by (simp add: arch_def)
  with True assms show ?thesis by (simp add: step_halted)
next
  case False
  with assms have h2: "\<not> halted c2" by (simp add: arch_def)
  have f: "arch (fetch c1) = arch (fetch c2)" using assms by (rule arch_fetch)
  then have ir: "IR (fetch c1) = IR (fetch c2)" by (simp add: arch_def)
  have e: "arch (execute (IR (fetch c1)) (fetch c1)) = arch (execute (IR (fetch c2)) (fetch c2))"
    unfolding ir using f by (rule arch_execute)
  from False h2 e show ?thesis
    by (simp add: step_def Let_def CPU_snapshot_def arch_def)
qed

lemma run_Suc:
  "run (Suc n) c = (fst (step c) # fst (run n (snd (step c))), snd (run n (snd (step c))))"
  by (simp add: case_prod_unfold Let_def)

section \<open>Claims\<close>

text \<open>
  C1. The sample program in cells 0 to 7, 7 in cell 10 and 3 in cell 11, PC at 0: after
  exactly five calls of \<open>step()\<close> the accumulator is 10, cell 12 holds 10, the unit is
  halted and the zero flag is false; after four calls the unit is not halted yet.
\<close>

theorem sample_program_run:
  assumes ok: "ram_ok (ram c)" and sz: "12 < size_ram (ram c)"
    and prog: "program_at (ram c) 0 sampleProgram"
    and d10: "RAM_read (ram c) 10 = 7" and d11: "RAM_read (ram c) 11 = 3"
    and pc: "PC c = 0" and run: "\<not> halted c"
  shows "ACC (steps 5 c) = 10 \<and> RAM_read (ram (steps 5 c)) 12 = 10
       \<and> halted (steps 5 c) \<and> \<not> flags_zero (steps 5 c) \<and> \<not> halted (steps 4 c)"
proof -
  from prog have m: "RAM_read (ram c) 0 = LOAD" "RAM_read (ram c) 1 = 10"
    "RAM_read (ram c) 2 = ADD" "RAM_read (ram c) 3 = 11" "RAM_read (ram c) 4 = OUT"
    "RAM_read (ram c) 5 = STORE" "RAM_read (ram c) 6 = 12" "RAM_read (ram c) 7 = HALT"
    by (simp_all add: sampleProgram_def)
  define c1 where "c1 = snd (step c)"
  define c2 where "c2 = snd (step c1)"
  define c3 where "c3 = snd (step c2)"
  define c4 where "c4 = snd (step c3)"
  define c5 where "c5 = snd (step c4)"
  have s1: "PC c1 = 2" "ACC c1 = 7" "ram c1 = ram c" "\<not> halted c1"
    unfolding c1_def using step_LOAD [OF run] m d10 pc by simp_all
  have s2: "PC c2 = 4" "ACC c2 = 10" "ram c2 = ram c" "\<not> halted c2" "\<not> flags_zero c2"
    unfolding c2_def using step_ADD [OF s1(4)] m d11 s1 by (simp_all add: and_ff_mod)
  have s3: "PC c3 = 5" "ACC c3 = 10" "ram c3 = ram c" "\<not> halted c3" "\<not> flags_zero c3"
    unfolding c3_def using step_OUT [OF s2(4)] m s2 by simp_all
  have s4: "PC c4 = 7" "ACC c4 = 10" "ram c4 = RAM_write (ram c) 12 10" "\<not> halted c4"
    "\<not> flags_zero c4"
    unfolding c4_def using step_STORE [OF s3(4)] m s3 by simp_all
  have w7: "RAM_wrap (ram c) 7 = 7" and w12: "RAM_wrap (ram c) 12 = 12"
    using ok sz by (simp_all add: RAM_wrap_small)
  have h: "RAM_read (ram c4) 7 = HALT"
    using RAM_read_write_other [OF ok, of 12 7 10] w7 w12 m s4 by simp
  have s5: "ACC c5 = 10" "ram c5 = RAM_write (ram c) 12 10" "halted c5" "\<not> flags_zero c5"
    unfolding c5_def using step_HALT [OF s4(4)] h s4 by simp_all
  have r12: "RAM_read (ram c5) 12 = 10"
    using RAM_read_write_same [OF ok, of 12 10] s5 by (simp add: and_ff_mod)
  have e5: "steps 5 c = c5" and e4: "steps 4 c = c4"
    by (simp_all add: eval_nat_numeral steps_Suc steps_0 c1_def c2_def c3_def c4_def c5_def)
  from s5 r12 s4 show ?thesis by (simp add: e5 e4)
qed

theorem sample_program_run_witness:
  "ACC (steps 5 (load_machine sampleProgram sampleData)) = 10
   \<and> RAM_read (ram (steps 5 (load_machine sampleProgram sampleData))) 12 = 10
   \<and> halted (steps 5 (load_machine sampleProgram sampleData))
   \<and> \<not> flags_zero (steps 5 (load_machine sampleProgram sampleData))
   \<and> \<not> halted (steps 4 (load_machine sampleProgram sampleData))"
proof -
  let ?c = "load_machine sampleProgram sampleData"
  have "ram_ok (ram ?c)" by code_simp
  moreover have "12 < size_ram (ram ?c)" by code_simp
  moreover have "program_at (ram ?c) 0 sampleProgram" by code_simp
  moreover have "RAM_read (ram ?c) 10 = 7" by code_simp
  moreover have "RAM_read (ram ?c) 11 = 3" by code_simp
  moreover have "PC ?c = 0" by code_simp
  moreover have "\<not> halted ?c" by code_simp
  ultimately show ?thesis by (rule sample_program_run)
qed

text \<open>
  C2. Writing \<open>v\<close> at any integer address \<open>a\<close> (negative, or at or beyond the capacity) and
  reading \<open>a\<close> back returns \<open>v\<close> modulo 256; both operations use the same wrapped address,
  which lies in \<open>[0, size)\<close> and is \<open>a\<close> modulo the capacity.
\<close>

theorem ram_write_read_roundtrip:
  assumes "ram_ok r"
  shows "RAM_read (RAM_write r a v) a = v mod 256
       \<and> 0 \<le> RAM_wrap r a \<and> RAM_wrap r a < size_ram r
       \<and> RAM_wrap r a = a mod size_ram r
       \<and> RAM_wrap (RAM_write r a v) a = RAM_wrap r a"
proof -
  from assms have n: "0 < size_ram r" by (simp add: ram_ok_def)
  have idx: "nat (RAM_wrap r a) < length (data r)"
    using assms by (rule RAM_wrap_index)
  have "RAM_read (RAM_write r a v) a = (data r)[nat (RAM_wrap r a) := and_ff v] ! nat (RAM_wrap r a)"
    by (simp add: RAM_read_def RAM_wrap_write) (simp add: RAM_write_def)
  also have "\<dots> = and_ff v" using idx by simp
  finally have rt: "RAM_read (RAM_write r a v) a = v mod 256"
    by (simp add: and_ff_mod)
  have w: "RAM_wrap r a = a mod size_ram r" using n by (rule RAM_wrap_mod)
  from rt w n show ?thesis by (simp add: RAM_wrap_write)
qed

theorem ram_write_read_roundtrip_witness:
  "ram_ok \<lparr>size_ram = 64, data = replicate 64 0\<rparr>
   \<and> RAM_read (RAM_write \<lparr>size_ram = 64, data = replicate 64 0\<rparr> (- 3) 300) (- 3) = 44
   \<and> RAM_wrap \<lparr>size_ram = 64, data = replicate 64 0\<rparr> (- 3) = 61"
proof -
  have ok: "ram_ok \<lparr>size_ram = 64, data = replicate 64 0\<rparr>"
    by (simp add: ram_ok_def)
  from ram_write_read_roundtrip [OF ok, of "- 3" 300] ok show ?thesis by simp
qed

text \<open>
  C3. A halted unit stays as it is: any number of consecutive calls of \<open>step()\<close> return
  the sentinel each time and leave the whole state (registers, flags, memory, bus)
  unchanged.
\<close>

theorem halted_is_terminal: "halted c \<Longrightarrow> run n c = (replicate n Halt_sentinel, c)"
  by (induction n) (simp_all add: step_halted)

theorem halted_is_terminal_witness:
  "halted halt_machine \<and> run 3 halt_machine = (replicate 3 Halt_sentinel, halt_machine)"
proof -
  have h: "halted halt_machine" by code_simp
  from halted_is_terminal [OF h, of 3] h show ?thesis by simp
qed

text \<open>
  C4. The jump program in cells 0 to 8 (so cell 5 holds 0), PC at 0: the first step loads
  0 into the accumulator and sets the zero flag; the second step, the JZ, sets PC to 6
  and does not fall through to the HALT at address 4.
\<close>

theorem jz_taken_scenario:
  assumes prog: "program_at (ram c) 0 jumpProgram"
    and d5: "RAM_read (ram c) 5 = 0"
    and pc: "PC c = 0" and run: "\<not> halted c"
  shows "ACC (steps 1 c) = 0 \<and> flags_zero (steps 1 c)
       \<and> PC (steps 2 c) = 6 \<and> IR (steps 2 c) = JZ \<and> \<not> halted (steps 2 c)"
proof -
  from prog have m: "RAM_read (ram c) 0 = LOAD" "RAM_read (ram c) 1 = 5"
    "RAM_read (ram c) 2 = JZ" "RAM_read (ram c) 3 = 6"
    by (simp_all add: jumpProgram_def)
  define c1 where "c1 = snd (step c)"
  define c2 where "c2 = snd (step c1)"
  have s1: "PC c1 = 2" "ACC c1 = 0" "flags_zero c1" "ram c1 = ram c" "\<not> halted c1"
    unfolding c1_def using step_LOAD [OF run] m d5 pc by simp_all
  have s2: "PC c2 = 6" "IR c2 = JZ" "\<not> halted c2"
    unfolding c2_def using step_JZ [OF s1(5)] m s1 by simp_all
  have e: "steps 1 c = c1" "steps 2 c = c2"
    by (simp_all add: eval_nat_numeral steps_Suc steps_0 c1_def c2_def)
  from s1 s2 show ?thesis unfolding e by simp
qed

theorem jz_taken_scenario_witness:
  "ACC (steps 1 (load_machine jumpProgram [(5, 0)])) = 0
   \<and> flags_zero (steps 1 (load_machine jumpProgram [(5, 0)]))
   \<and> PC (steps 2 (load_machine jumpProgram [(5, 0)])) = 6
   \<and> IR (steps 2 (load_machine jumpProgram [(5, 0)])) = JZ
   \<and> \<not> halted (steps 2 (load_machine jumpProgram [(5, 0)]))"
proof -
  let ?c = "load_machine jumpProgram [(5, 0)]"
  have "program_at (ram ?c) 0 jumpProgram" by code_simp
  moreover have "RAM_read (ram ?c) 5 = 0" by code_simp
  moreover have "PC ?c = 0" by code_simp
  moreover have "\<not> halted ?c" by code_simp
  ultimately show ?thesis by (rule jz_taken_scenario)
qed

text \<open>
  C5, as the code has it. With a step observer installed, a call of \<open>step()\<close> on a unit
  that is not halted calls the observer exactly once, with the action and the registers
  that the step leaves; a call of \<open>step()\<close> on a halted unit returns the sentinel and
  does not call it.
\<close>

theorem step_observer_once_while_running:
  assumes "onStep c"
  shows "(halted c \<longrightarrow> fst (step c) = Halt_sentinel \<and> stepped (snd (step c)) = stepped c)
       \<and> (\<not> halted c \<longrightarrow> (\<exists>act. stepped (snd (step c)) = stepped c @
             [\<lparr>pc = PC (snd (step c)), acc = ACC (snd (step c)), ir = IR (snd (step c)),
               flags = flags_zero (snd (step c)), action = act\<rparr>]))"
proof (cases "halted c")
  case True
  then show ?thesis by (simp add: step_halted)
next
  case False
  from assms have "onStep (fetch c)" by (simp add: fetch_observer)
  then have "ticked_once (fetch c) (execute (IR (fetch c)) (fetch c))"
    by (rule ticked_once_execute)
  with False show ?thesis
    by (simp add: step_def Let_def ticked_once_def fetch_observer)
qed

theorem step_observer_once_while_running_witness:
  "stepped (snd (step (load_machine sampleProgram sampleData)))
     = [\<lparr>pc = 2, acc = 7, ir = 1, flags = False, action = ''LOAD 10''\<rparr>]
   \<and> stepped (snd (step halt_machine)) = stepped halt_machine"
proof -
  let ?c = "load_machine sampleProgram sampleData"
  have o: "onStep ?c" by code_simp
  have oh: "onStep halt_machine" by code_simp
  have h: "halted halt_machine" by code_simp
  have v: "stepped (snd (step ?c))
      = [\<lparr>pc = 2, acc = 7, ir = 1, flags = False, action = ''LOAD 10''\<rparr>]"
    by code_simp
  from step_observer_once_while_running [OF oh] h
  have "stepped (snd (step halt_machine)) = stepped halt_machine" by simp
  with v step_observer_once_while_running [OF o] show ?thesis by simp
qed

text \<open>
  C5 as stated, one observer call for every call of \<open>step()\<close>, fails on a halted unit:
  after a program that is just HALT has halted, with the observer called once for the
  HALT, a further call of \<open>step()\<close> returns the sentinel and the observer's record is
  as long as before.
\<close>

theorem step_observer_skipped_when_halted:
  "halted halt_machine \<and> onStep halt_machine
   \<and> fst (step halt_machine) = Halt_sentinel
   \<and> stepped halt_machine = [\<lparr>pc = 1, acc = 0, ir = 255, flags = False, action = ''HALT''\<rparr>]
   \<and> stepped (snd (step halt_machine)) = stepped halt_machine
   \<and> length (stepped (snd (step halt_machine))) \<noteq> length (stepped halt_machine) + 1"
  by code_simp

text \<open>
  C6, as the code has it. A memory object has no \<open>fill\<close> operation: calling one throws.
  The cells are filled through the backing array, \<open>ram.data.fill(value)\<close>, which sets
  every one of the \<open>size\<close> cells to the value, so that reading any address afterwards
  returns it. \<open>resetAll\<close>, which fills with 0 and loads the sample again, leaves a memory
  of 64 cells as it was when the component was mounted, whatever it held.
\<close>

theorem backing_array_fill_sets_every_cell:
  assumes "ram_ok r"
  shows "RAM_call r ''fill'' v = Inl TypeError
       \<and> RAM_read (data_fill r v) a = v
       \<and> data (data_fill r v) = replicate (nat (size_ram r)) v
       \<and> size_ram (data_fill r v) = size_ram r
       \<and> (ram c = r \<and> size_ram r = 64
          \<longrightarrow> ram (resetAll c) = ram (load_machine sampleProgram sampleData))"
proof -
  have w: "RAM_wrap (data_fill r v) a = RAM_wrap r a"
    by (simp add: RAM_wrap_def data_fill_def)
  have "nat (RAM_wrap r a) < length (data r)" using assms by (rule RAM_wrap_index)
  then have rd: "RAM_read (data_fill r v) a = v"
    by (simp add: RAM_read_def w) (simp add: data_fill_def Array_fill_replicate)
  have len: "length (data r) = nat (size_ram r)"
    using assms nat_int [of "length (data r)"] by (simp add: ram_ok_def)
  have no: "RAM_call r ''fill'' v = Inl TypeError"
    by (simp add: RAM_call_def Object_prototype_calls_def)
  have rs: "ram (resetAll c) = ram (load_machine sampleProgram sampleData)"
    if "ram c = r" and "size_ram r = 64"
  proof -
    from that len have "data_fill (ram c) 0 = \<lparr>size_ram = 64, data = replicate 64 0\<rparr>"
      by (cases r) (simp add: data_fill_def Array_fill_replicate)
    then show ?thesis
      by (simp add: resetAll_def load_machine_def loadProgram_def reset_def CPU_new_def Let_def)
  qed
  from rd len no rs show ?thesis
    by (simp add: data_fill_def Array_fill_replicate)
qed

theorem backing_array_fill_sets_every_cell_witness:
  "RAM_call (ram halt_machine) ''fill'' 7 = Inl TypeError
   \<and> RAM_read (ram halt_machine) 0 = HALT
   \<and> RAM_read (data_fill (ram halt_machine) 7) 0 = 7
   \<and> data (data_fill (ram halt_machine) 7) = replicate 64 7
   \<and> ram (resetAll halt_machine) = ram (load_machine sampleProgram sampleData)"
proof -
  have ok: "ram_ok (ram halt_machine)" by code_simp
  have sz: "size_ram (ram halt_machine) = 64" by code_simp
  have h: "RAM_read (ram halt_machine) 0 = HALT" by code_simp
  from backing_array_fill_sets_every_cell [OF ok, of 7 0 halt_machine] sz h
  show ?thesis by simp
qed

text \<open>
  C6 as stated, a \<open>fill(value)\<close> operation of the memory, fails: on a new memory of 64
  cells the call \<open>fill(7)\<close> throws a TypeError, because class RAM defines no such method.
\<close>

theorem memory_has_no_fill_method:
  "RAM_call \<lparr>size_ram = 64, data = replicate 64 0\<rparr> ''fill'' 7 = Inl TypeError"
  by (simp add: RAM_call_def Object_prototype_calls_def)

text \<open>
  C7. Assembling the sample source gives the program bytes 1, 10, 3, 11, 7, 2, 12, 255
  and the data entries 10 to 7 and 11 to 3.
\<close>

theorem quickAssemble_sample:
  "quickAssemble [''LOAD 10'', ''ADD 11'', ''OUT'', ''STORE 12'', ''HALT'', ''DATA 10 7'', ''DATA 11 3'']
   = (map Num [1, 10, 3, 11, 7, 2, 12, 255], [(Num 10, Num 7), (Num 11, Num 3)])"
  by code_simp

text \<open>
  C8. Two units that agree on the registers and on the memory, whatever their bus, observer
  and timers, return the same values from the same number of calls of \<open>step()\<close> and
  agree on the registers and the memory afterwards, for every number of calls.
\<close>

theorem step_deterministic:
  assumes "arch c1 = arch c2"
  shows "fst (run n c1) = fst (run n c2) \<and> arch (steps n c1) = arch (steps n c2)"
  using assms
proof (induction n arbitrary: c1 c2)
  case 0
  then show ?case by (simp add: steps_def)
next
  case (Suc n)
  from arch_step [OF Suc.prems]
  have r: "fst (step c1) = fst (step c2)" and a: "arch (snd (step c1)) = arch (snd (step c2))"
    by simp_all
  from Suc.IH [OF a] r show ?case
    by (simp add: steps_def run_Suc del: run.simps)
qed

theorem step_deterministic_witness:
  "arch (load_machine sampleProgram sampleData) = arch other_machine
   \<and> load_machine sampleProgram sampleData \<noteq> other_machine
   \<and> fst (run 5 (load_machine sampleProgram sampleData)) = fst (run 5 other_machine)
   \<and> arch (steps 5 (load_machine sampleProgram sampleData)) = arch (steps 5 other_machine)"
proof -
  have a: "arch (load_machine sampleProgram sampleData) = arch other_machine"
    by (simp add: other_machine_def arch_def)
  have "onStep (load_machine sampleProgram sampleData) \<noteq> onStep other_machine"
    by (simp add: other_machine_def load_machine_def loadProgram_def reset_def CPU_new_def Let_def)
  then have d: "load_machine sampleProgram sampleData \<noteq> other_machine" by auto
  from step_deterministic [OF a, of 5] a d show ?thesis by simp
qed

text \<open>
  C9. The FETCH and READ packets omit the data field, and \<open>send\<close> leaves an omitted
  field as it was: the lines that a step hands to the bus listeners for its FETCH, and
  for the READ of a LOAD, ADD or SUB, carry the data value that was on the bus before the
  step; after a STORE that value is the accumulator. \<open>clear\<close> sets it to null, as does
  the timer that the step has set, once it fires.
\<close>

theorem fetch_carries_stale_data:
  assumes "\<not> halted c"
  shows "notified (bus (snd (step c))) = notified (bus c) @
           (\<lparr>addr_line = Some (PC c), data_line = data_line (lines (bus c)),
             control_line = Some ''FETCH''\<rparr> #
            (if RAM_read (ram c) (PC c) \<in> {LOAD, ADD, SUB}
             then [\<lparr>addr_line = Some (RAM_read (ram c) (PC c + 1)),
                    data_line = data_line (lines (bus c)), control_line = Some ''READ''\<rparr>]
             else if RAM_read (ram c) (PC c) = STORE
             then [\<lparr>addr_line = Some (RAM_read (ram c) (PC c + 1)),
                    data_line = Some (ACC c), control_line = Some ''WRITE''\<rparr>]
             else []))
       \<and> data_line (lines (bus (snd (step c)))) =
           (if RAM_read (ram c) (PC c) = STORE then Some (ACC c) else data_line (lines (bus c)))
       \<and> data_line (lines (Bus_send b (fetch_packet a))) = data_line (lines b)
       \<and> data_line (lines (Bus_send b (read_packet a))) = data_line (lines b)
       \<and> data_line (lines (Bus_clear b)) = None
       \<and> data_line (lines (bus (timer_fires (snd (step c))))) = None"
proof -
  have "bus (snd (step c)) = bus (execute (RAM_read (ram c) (PC c)) (fetch c))"
    using assms by (rule step_bus)
  moreover have "data_line (lines (bus (timer_fires (snd (step c))))) = None"
    using assms by (simp add: step_def Let_def timer_fires_def Bus_clear_def Bus_notify_def)
  ultimately show ?thesis
    by (simp add: execute_bus fetch_regs Bus_send_def Bus_notify_def Bus_clear_def
        merge_field_def fetch_packet_def read_packet_def opcode_defs)
qed

theorem fetch_carries_stale_data_witness:
  "notified (bus (steps 3 store_machine)) = notified (bus (steps 2 store_machine))
     @ [\<lparr>addr_line = Some 4, data_line = Some 7, control_line = Some ''FETCH''\<rparr>]
   \<and> data_line (lines (bus (steps 1 store_machine))) = None
   \<and> data_line (lines (bus (steps 2 store_machine))) = Some 7"
proof -
  define m1 where "m1 = snd (step store_machine)"
  define m2 where "m2 = snd (step m1)"
  define m3 where "m3 = snd (step m2)"
  have r0: "\<not> halted store_machine" "PC store_machine = 0"
    "data_line (lines (bus store_machine)) = None"
    by code_simp+
  have mem: "RAM_read (ram store_machine) 0 = LOAD" "RAM_read (ram store_machine) 1 = 10"
    "RAM_read (ram store_machine) 10 = 7" "RAM_read (ram store_machine) 2 = STORE"
    "RAM_read (ram store_machine) 3 = 12"
    "RAM_read (RAM_write (ram store_machine) 12 7) 4 = HALT"
    by code_simp+
  have s1: "PC m1 = 2" "ACC m1 = 7" "ram m1 = ram store_machine" "\<not> halted m1"
    unfolding m1_def using step_LOAD [OF r0(1)] r0 mem by simp_all
  have b1: "data_line (lines (bus m1)) = None"
    unfolding m1_def using fetch_carries_stale_data [OF r0(1)] r0 mem
    by (simp add: opcode_defs)
  have s2: "PC m2 = 4" "ram m2 = RAM_write (ram store_machine) 12 7" "\<not> halted m2"
    unfolding m2_def using step_STORE [OF s1(4)] s1 mem by simp_all
  have b2: "data_line (lines (bus m2)) = Some 7"
    unfolding m2_def using fetch_carries_stale_data [OF s1(4)] s1 mem
    by (simp add: opcode_defs)
  have b3: "notified (bus m3) = notified (bus m2)
      @ [\<lparr>addr_line = Some 4, data_line = Some 7, control_line = Some ''FETCH''\<rparr>]"
    unfolding m3_def using fetch_carries_stale_data [OF s2(3)] s2 b2 mem
    by (simp add: opcode_defs)
  have e: "steps 1 store_machine = m1" "steps 2 store_machine = m2"
    "steps 3 store_machine = m3"
    by (simp_all add: eval_nat_numeral steps_Suc steps_0 m1_def m2_def m3_def)
  from b1 b2 b3 show ?thesis unfolding e by simp
qed

text \<open>
  C10. A step never wraps the program counter: the fetch and the operand fetch each add
  exactly 1 to it, so an instruction that does not jump leaves it at PC + 1 or, with an
  operand, at PC + 2, and after such an instruction fetched at the last address the
  counter is at or beyond the capacity. A jump that is taken leaves it at the operand
  byte itself, also when that is at or beyond the capacity. The fetch reads the cell at
  PC modulo the capacity all the same.
\<close>

theorem pc_is_never_wrapped:
  assumes ok: "ram_ok (ram c)" and run: "\<not> halted c"
  shows "PC (fetch c) = PC c + 1 \<and> PC (snd (read_operand c)) = PC c + 1
       \<and> IR (snd (step c)) = data (ram c) ! nat (PC c mod size_ram (ram c))
       \<and> (RAM_read (ram c) (PC c) \<in> {LOAD, STORE, ADD, SUB}
            \<or> RAM_read (ram c) (PC c) = JZ \<and> \<not> flags_zero c
          \<longrightarrow> PC (snd (step c)) = PC c + 2)
       \<and> (RAM_read (ram c) (PC c) \<notin> {LOAD, STORE, ADD, SUB, JMP, JZ}
          \<longrightarrow> PC (snd (step c)) = PC c + 1)
       \<and> (RAM_read (ram c) (PC c) = JMP
            \<or> RAM_read (ram c) (PC c) = JZ \<and> flags_zero c
          \<longrightarrow> PC (snd (step c)) = RAM_read (ram c) (PC c + 1))
       \<and> (PC c = size_ram (ram c) - 1 \<and> RAM_read (ram c) (PC c) \<noteq> JMP
            \<and> \<not> (RAM_read (ram c) (PC c) = JZ \<and> flags_zero c)
          \<longrightarrow> size_ram (ram c) \<le> PC (snd (step c)))"
proof -
  from ok have n: "0 < size_ram (ram c)" by (simp add: ram_ok_def)
  have ir: "IR (snd (step c)) = data (ram c) ! nat (PC c mod size_ram (ram c))"
    using run n by (simp add: step_IR RAM_read_def RAM_wrap_mod)
  have pc: "PC (snd (step c)) =
      (if RAM_read (ram c) (PC c) \<in> {LOAD, STORE, ADD, SUB} then PC c + 2
       else if RAM_read (ram c) (PC c) = JMP then RAM_read (ram c) (PC c + 1)
       else if RAM_read (ram c) (PC c) = JZ
       then (if flags_zero c then RAM_read (ram c) (PC c + 1) else PC c + 2)
       else PC c + 1)"
    using run by (simp add: step_PC execute_PC fetch_regs)
  have f: "PC (fetch c) = PC c + 1" "PC (snd (read_operand c)) = PC c + 1"
    by (simp_all add: fetch_regs read_operand_def)
  from ir f show ?thesis unfolding pc by (auto simp: opcode_defs)
qed

theorem pc_is_never_wrapped_witness:
  "PC end_machine = 63 \<and> size_ram (ram end_machine) = 64
   \<and> IR (steps 1 end_machine) = LOAD \<and> PC (steps 1 end_machine) = 65
   \<and> IR (steps 2 end_machine) = NOP \<and> PC (steps 2 end_machine) = 66
   \<and> size_ram (ram far_jump_machine) = 64 \<and> RAM_wrap (ram far_jump_machine) 200 = 8
   \<and> IR (steps 1 far_jump_machine) = JMP \<and> PC (steps 1 far_jump_machine) = 200"
proof -
  define m1 where "m1 = snd (step end_machine)"
  have ok: "ram_ok (ram end_machine)" by code_simp
  have run: "\<not> halted end_machine" by code_simp
  have v: "PC end_machine = 63" "size_ram (ram end_machine) = 64"
    "RAM_read (ram end_machine) (PC end_machine) = LOAD"
    "data (ram end_machine) ! nat (63 mod 64) = LOAD"
    "RAM_read (ram end_machine) 65 = NOP"
    "data (ram end_machine) ! nat (65 mod 64) = NOP"
    by code_simp+
  have s1: "IR m1 = LOAD" "PC m1 = 65"
    unfolding m1_def using pc_is_never_wrapped [OF ok run] v by (simp_all add: opcode_defs)
  have r1: "ram m1 = ram end_machine" "\<not> halted m1"
    unfolding m1_def using step_LOAD [OF run] v by simp_all
  from ok r1 have ok1: "ram_ok (ram m1)" by simp
  have s2: "IR (snd (step m1)) = NOP" "PC (snd (step m1)) = 66"
    using pc_is_never_wrapped [OF ok1 r1(2)] v s1 r1 by (simp_all add: opcode_defs)
  have e: "steps 1 end_machine = m1" "steps 2 end_machine = snd (step m1)"
    by (simp_all add: eval_nat_numeral steps_Suc steps_0 m1_def)
  have okj: "ram_ok (ram far_jump_machine)" by code_simp
  have runj: "\<not> halted far_jump_machine" by code_simp
  have vj: "PC far_jump_machine = 0" "size_ram (ram far_jump_machine) = 64"
    "RAM_read (ram far_jump_machine) (PC far_jump_machine) = JMP"
    "RAM_read (ram far_jump_machine) (PC far_jump_machine + 1) = 200"
    "data (ram far_jump_machine) ! nat (0 mod 64) = JMP"
    "RAM_wrap (ram far_jump_machine) 200 = 8"
    by code_simp+
  have ej: "steps 1 far_jump_machine = snd (step far_jump_machine)"
    by (simp add: steps_Suc steps_0)
  have sj: "IR (snd (step far_jump_machine)) = JMP" "PC (snd (step far_jump_machine)) = 200"
    using pc_is_never_wrapped [OF okj runj] vj by (simp_all add: opcode_defs)
  from v s1 s2 vj sj show ?thesis unfolding e ej by simp
qed

end
